theory Spec2Isabelle
  imports Main
begin

section \<open>The event bus of \<open>handlers/chat_handler.go\<close>\<close>

text \<open>
  The chat handler keeps one process-wide table, \<^verbatim>\<open>userStreams.m\<close>, of type
  \<^verbatim>\<open>map[int][]chan []byte\<close>: for every user id the slice of the channels of that user's
  open streams. A Go channel value is a reference to a channel object, compared by
  identity (\<^verbatim>\<open>ch == msgCh\<close>), so the model has an explicit store of channel objects,
  addressed by a channel id, and the table holds ids.

  Go's \<^verbatim>\<open>int\<close> is modelled as \<open>int\<close>: the handler only compares and copies user,
  conversation and message ids, it does no arithmetic on them. A \<^verbatim>\<open>[]byte\<close> payload is a
  \<open>string\<close> (a list of bytes).
\<close>

type_synonym chan_id = nat
type_synonym payload = string

text \<open>
  A buffered channel \<^verbatim>\<open>make(chan []byte, n)\<close>: the queued elements, oldest first, the
  capacity, and whether \<^verbatim>\<open>close\<close> has been called on it.
\<close>

record chan =
  ch_buf :: "payload list"
  ch_cap :: nat
  ch_closed :: bool

text \<open>
  The bus: the table (a missing key reads as the nil slice), the channel objects, and
  the next id that \<^verbatim>\<open>make\<close> hands out. The slices of the table are modelled as lists.
  \<^verbatim>\<open>append(subs[:i], subs[i+1:]...)\<close> writes into the backing array of the slice; the
  table's own header is replaced in the same critical section, so operations that read
  the table afterwards see the list without the element. A publisher's snapshot, read
  earlier, shares that array: the removal of an element that is not the last shifts the
  later elements under it.
\<close>

record bus =
  us_m :: "int \<rightharpoonup> chan_id list"
  chans :: "chan_id \<Rightarrow> chan"
  next_chan :: chan_id

datatype panic = SendOnClosedChannel | CloseOfClosedChannel

definition new_chan :: "nat \<Rightarrow> chan" where
  "new_chan n = \<lparr>ch_buf = [], ch_cap = n, ch_closed = False\<rparr>"

definition bus_init :: bus where
  "bus_init = \<lparr>us_m = Map.empty, chans = (\<lambda>_. new_chan 0), next_chan = 0\<rparr>"

text \<open>\<^verbatim>\<open>userStreams.m[userID]\<close>: reading a missing key gives the zero value, the nil slice.\<close>

definition subs_of :: "(int \<rightharpoonup> chan_id list) \<Rightarrow> int \<Rightarrow> chan_id list" where
  "subs_of m userID = (case m userID of None \<Rightarrow> [] | Some subs \<Rightarrow> subs)"

subsection \<open>Stream: registration and cleanup\<close>

text \<open>
  Lines 53 to 57 of \<^verbatim>\<open>Stream\<close>:
  \<^verbatim>\<open>
  msgCh := make(chan []byte, 32)
  userStreams.Lock()
  userStreams.m[userID] = append(userStreams.m[userID], msgCh)
  userStreams.Unlock()
  \<close>
  The result is the new channel and the bus after the registration.
\<close>

definition stream_register :: "int \<Rightarrow> bus \<Rightarrow> chan_id \<times> bus" where
  "stream_register userID s =
     (let msgCh = next_chan s;
          s1 = s\<lparr>chans := (chans s)(msgCh := new_chan 32), next_chan := Suc msgCh\<rparr>
      in (msgCh, s1\<lparr>us_m := (us_m s1)(userID \<mapsto> subs_of (us_m s1) userID @ [msgCh])\<rparr>))"

text \<open>
  The \<^verbatim>\<open>range\<close> loop of the deferred cleanup looks for the first index \<open>i\<close> with
  \<^verbatim>\<open>subs[i] == msgCh\<close>:
  \<^verbatim>\<open>
  for i, ch := range subs {
      if ch == msgCh {
          userStreams.m[userID] = append(subs[:i], subs[i+1:]...)
          break
      }
  }
  \<close>
\<close>

fun first_index :: "chan_id \<Rightarrow> chan_id list \<Rightarrow> nat option" where
  "first_index msgCh [] = None"
| "first_index msgCh (ch # subs) =
     (if ch = msgCh then Some 0 else map_option Suc (first_index msgCh subs))"

text \<open>The locked section of the cleanup (lines 61 to 69): the table is only written when
  the channel is found.\<close>

definition deregister :: "int \<Rightarrow> chan_id \<Rightarrow> bus \<Rightarrow> bus" where
  "deregister userID msgCh s =
     (let subs = subs_of (us_m s) userID
      in case first_index msgCh subs of
           None \<Rightarrow> s
         | Some i \<Rightarrow> s\<lparr>us_m := (us_m s)(userID \<mapsto> take i subs @ drop (Suc i) subs)\<rparr>)"

text \<open>\<^verbatim>\<open>close(msgCh)\<close> (line 70): closing a closed channel panics.\<close>

definition close_chan :: "chan_id \<Rightarrow> bus \<Rightarrow> panic + bus" where
  "close_chan msgCh s =
     (if ch_closed (chans s msgCh) then Inl CloseOfClosedChannel
      else Inr (s\<lparr>chans := (chans s)(msgCh := (chans s msgCh)\<lparr>ch_closed := True\<rparr>)\<rparr>))"

text \<open>The whole deferred function of \<^verbatim>\<open>Stream\<close> (lines 60 to 71).\<close>

definition stream_cleanup :: "int \<Rightarrow> chan_id \<Rightarrow> bus \<Rightarrow> panic + bus" where
  "stream_cleanup userID msgCh s = close_chan msgCh (deregister userID msgCh s)"

text \<open>
  The body stream writer (lines 73 to 84) receives from the channel: \<^verbatim>\<open>b, ok := <-msgCh\<close>.
  One receive that does not block takes the oldest queued payload; on an empty channel
  nothing is taken (the writer waits, or ends when the channel is closed).
\<close>

definition stream_recv :: "chan_id \<Rightarrow> bus \<Rightarrow> payload option \<times> bus" where
  "stream_recv msgCh s =
     (case ch_buf (chans s msgCh) of
        [] \<Rightarrow> (None, s)
      | b # bs \<Rightarrow> (Some b, s\<lparr>chans := (chans s)(msgCh := (chans s msgCh)\<lparr>ch_buf := bs\<rparr>)\<rparr>))"

subsection \<open>Events and publishToUser\<close>

text \<open>
  \<^verbatim>\<open>sseEvent\<close> has a type tag and a free-form \<^verbatim>\<open>Data\<close>; the handlers always put a
  \<^verbatim>\<open>fiber.Map\<close> there, whose values are ints, strings and one \<^verbatim>\<open>time.Time\<close>. The map is
  written as the list of its entries in the order of the source's literal. A
  \<^verbatim>\<open>time.Time\<close> is an integer timestamp, the zero time being 0.
\<close>

type_synonym time = int

datatype json = JInt int | JStr string | JTime time

record sseEvent =
  sse_Type :: string
  sse_Data :: "(string \<times> json) list"

text \<open>
  \<^verbatim>\<open>select { case ch <- payload: default: }\<close>: a send that never blocks. A send on a closed
  channel panics, also inside a \<^verbatim>\<open>select\<close>; otherwise the payload is queued when the buffer
  has room and dropped when it has none.
\<close>

definition try_send :: "payload \<Rightarrow> chan \<Rightarrow> panic + chan" where
  "try_send p ch =
     (if ch_closed ch then Inl SendOnClosedChannel
      else if length (ch_buf ch) < ch_cap ch then Inr (ch\<lparr>ch_buf := ch_buf ch @ [p]\<rparr>)
      else Inr ch)"

text \<open>The loop \<^verbatim>\<open>for _, ch := range subs\<close> of \<^verbatim>\<open>publishToUser\<close> (lines 97 to 102).\<close>

fun deliver :: "chan_id list \<Rightarrow> payload \<Rightarrow> (chan_id \<Rightarrow> chan) \<Rightarrow> panic + (chan_id \<Rightarrow> chan)" where
  "deliver [] p h = Inr h"
| "deliver (ch # subs) p h =
     (case try_send p (h ch) of
        Inl e \<Rightarrow> Inl e
      | Inr c' \<Rightarrow> deliver subs p (h(ch := c')))"

text \<open>
  \<^verbatim>\<open>publishToUser\<close> (lines 89 to 103). \<^verbatim>\<open>json.Marshal\<close> is the standard library's; it is
  the parameter \<open>marshal\<close>. The function has no result in Go: the model returns the bus
  after the call, or the panic that ends it.
\<close>

definition publishToUser ::
  "(sseEvent \<Rightarrow> payload) \<Rightarrow> int \<Rightarrow> sseEvent \<Rightarrow> bus \<Rightarrow> panic + bus" where
  "publishToUser marshal userID evt s =
     (let subs = subs_of (us_m s) userID
      in if length subs = 0 then Inr s
         else (let payload = marshal evt
               in case deliver subs payload (chans s) of
                    Inl e \<Rightarrow> Inl e
                  | Inr h \<Rightarrow> Inr (s\<lparr>chans := h\<rparr>)))"

text \<open>
  The two phases of \<^verbatim>\<open>publishToUser\<close>, for runs in which other goroutines act between
  them. The snapshot of the user's slice is read under the read lock (lines 90 to 92);
  the rest (lines 93 to 102) runs after \<^verbatim>\<open>RUnlock\<close>, on that snapshot and on the channels
  as they are by then. The list \<open>subs\<close> is what the loop reads from the snapshot; it is
  the list read under the lock as long as no removal has shifted elements of the shared
  array in between.
\<close>

definition publish_snapshot :: "int \<Rightarrow> bus \<Rightarrow> chan_id list" where
  "publish_snapshot userID s = subs_of (us_m s) userID"

definition publish_sends ::
  "(sseEvent \<Rightarrow> payload) \<Rightarrow> sseEvent \<Rightarrow> chan_id list \<Rightarrow> bus \<Rightarrow> panic + bus" where
  "publish_sends marshal evt subs s =
     (if length subs = 0 then Inr s
      else (let payload = marshal evt
            in case deliver subs payload (chans s) of
                 Inl e \<Rightarrow> Inl e
               | Inr h \<Rightarrow> Inr (s\<lparr>chans := h\<rparr>)))"

definition publishNotification :: "(sseEvent \<Rightarrow> payload) \<Rightarrow> int \<Rightarrow> string \<Rightarrow> bus \<Rightarrow> panic + bus" where
  "publishNotification marshal userID message s =
     publishToUser marshal userID
       \<lparr>sse_Type = ''notification'', sse_Data = [(''message'', JStr message)]\<rparr> s"

section \<open>The store\<close>

text \<open>
  Modelled from the spec: the relational store behind \<^verbatim>\<open>database.DB\<close> (the package
  \<^verbatim>\<open>database\<close> and the schema lie outside \<^verbatim>\<open>chat_handler.go\<close>). The tables
  \<^verbatim>\<open>conversations\<close> and \<^verbatim>\<open>messages\<close> have the columns that the handlers' SQL statements
  name and the spec's data model lists; ids are assigned by the store on insert
  (\<^verbatim>\<open>LastInsertId\<close>), a message's \<^verbatim>\<open>created_at\<close> is stamped by the store, and the tables
  carry no constraint besides that. Rows are kept in insertion order.

  Every call to the store can fail for reasons of its own (the store is unreachable).
  The failures are an input: \<open>faults\<close> lists, call by call, whether the next call
  fails; when the list is used up no call fails.
\<close>

record conv_row =
  conv_id :: int
  conv_product_id :: int
  conv_buyer_id :: int
  conv_seller_id :: int

record msg_row =
  msg_id :: int
  msg_conversation_id :: int
  msg_sender_id :: int
  msg_content :: string
  msg_created_at :: time
  msg_read_at :: "time option"

record db =
  conversations :: "conv_row list"
  messages :: "msg_row list"
  conv_auto :: int
  msg_auto :: int
  db_clock :: time
  faults :: "bool list"

datatype sql_error = ErrNoRows | ErrStore

text \<open>Modelled from the spec: a call fails when the store is unreachable. \<open>db_call\<close> says
  whether this call fails and returns the store with that fault consumed.\<close>

definition db_call :: "db \<Rightarrow> bool \<times> db" where
  "db_call d = (case faults d of [] \<Rightarrow> (False, d) | f # fs \<Rightarrow> (f, d\<lparr>faults := fs\<rparr>))"

text \<open>The store answers its next \<open>n\<close> calls: none of them fails.\<close>

fun no_fault :: "nat \<Rightarrow> bool list \<Rightarrow> bool" where
  "no_fault 0 fs = True"
| "no_fault (Suc n) [] = True"
| "no_fault (Suc n) (f # fs) = (\<not> f \<and> no_fault n fs)"

definition answers :: "nat \<Rightarrow> db \<Rightarrow> bool" where
  "answers n d = no_fault n (faults d)"

text \<open>The rows that the two \<^verbatim>\<open>INSERT\<close> statements add: the store assigns the id, stamps a
  message with its clock and leaves \<^verbatim>\<open>read_at\<close> null.\<close>

definition new_msg_row :: "int \<Rightarrow> int \<Rightarrow> string \<Rightarrow> db \<Rightarrow> msg_row" where
  "new_msg_row conversationID senderID content d =
     \<lparr>msg_id = msg_auto d, msg_conversation_id = conversationID, msg_sender_id = senderID,
      msg_content = content, msg_created_at = db_clock d, msg_read_at = None\<rparr>"

definition new_conv_row :: "int \<Rightarrow> int \<Rightarrow> int \<Rightarrow> db \<Rightarrow> conv_row" where
  "new_conv_row productID buyerID sellerID d =
     \<lparr>conv_id = conv_auto d, conv_product_id = productID, conv_buyer_id = buyerID,
      conv_seller_id = sellerID\<rparr>"

text \<open>\<^verbatim>\<open>SELECT id FROM conversations WHERE product_id = ? AND buyer_id = ? AND seller_id = ?\<close>
  read with \<^verbatim>\<open>QueryRow(...).Scan(&id)\<close>: the first matching row, or an error.\<close>

definition select_conversation_id :: "int \<Rightarrow> int \<Rightarrow> int \<Rightarrow> db \<Rightarrow> (sql_error + int) \<times> db" where
  "select_conversation_id productID buyerID sellerID d =
     (let (f, d1) = db_call d
      in if f then (Inl ErrStore, d1)
         else (case find (\<lambda>r. conv_product_id r = productID \<and> conv_buyer_id r = buyerID
                              \<and> conv_seller_id r = sellerID) (conversations d1) of
                 None \<Rightarrow> (Inl ErrNoRows, d1)
               | Some r \<Rightarrow> (Inr (conv_id r), d1)))"

text \<open>\<^verbatim>\<open>INSERT INTO conversations (product_id, buyer_id, seller_id) VALUES (?, ?, ?)\<close>; the
  result is the new row's id.\<close>

definition insert_conversation :: "int \<Rightarrow> int \<Rightarrow> int \<Rightarrow> db \<Rightarrow> (sql_error + int) \<times> db" where
  "insert_conversation productID buyerID sellerID d =
     (let (f, d1) = db_call d
      in if f then (Inl ErrStore, d1)
         else (Inr (conv_auto d1),
               d1\<lparr>conversations := conversations d1 @ [new_conv_row productID buyerID sellerID d1],
                  conv_auto := conv_auto d1 + 1\<rparr>))"

text \<open>\<^verbatim>\<open>INSERT INTO messages (conversation_id, sender_id, content) VALUES (?, ?, ?)\<close>.\<close>

definition insert_message :: "int \<Rightarrow> int \<Rightarrow> string \<Rightarrow> db \<Rightarrow> (sql_error + int) \<times> db" where
  "insert_message conversationID senderID content d =
     (let (f, d1) = db_call d
      in if f then (Inl ErrStore, d1)
         else (Inr (msg_auto d1),
               d1\<lparr>messages := messages d1 @ [new_msg_row conversationID senderID content d1],
                  msg_auto := msg_auto d1 + 1\<rparr>))"

text \<open>\<^verbatim>\<open>SELECT created_at FROM messages WHERE id = ?\<close>.\<close>

definition select_created_at :: "int \<Rightarrow> db \<Rightarrow> (sql_error + time) \<times> db" where
  "select_created_at id64 d =
     (let (f, d1) = db_call d
      in if f then (Inl ErrStore, d1)
         else (case find (\<lambda>r. msg_id r = id64) (messages d1) of
                 None \<Rightarrow> (Inl ErrNoRows, d1)
               | Some r \<Rightarrow> (Inr (msg_created_at r), d1)))"

text \<open>\<^verbatim>\<open>SELECT buyer_id, seller_id FROM conversations WHERE id = ?\<close>.\<close>

definition select_buyer_seller :: "int \<Rightarrow> db \<Rightarrow> (sql_error + int \<times> int) \<times> db" where
  "select_buyer_seller conversationID d =
     (let (f, d1) = db_call d
      in if f then (Inl ErrStore, d1)
         else (case find (\<lambda>r. conv_id r = conversationID) (conversations d1) of
                 None \<Rightarrow> (Inl ErrNoRows, d1)
               | Some r \<Rightarrow> (Inr (conv_buyer_id r, conv_seller_id r), d1)))"

text \<open>\<^verbatim>\<open>SELECT ... FROM messages WHERE conversation_id = ? ORDER BY created_at ASC\<close>, read
  row by row into a list.\<close>

definition select_messages :: "int \<Rightarrow> db \<Rightarrow> (sql_error + msg_row list) \<times> db" where
  "select_messages convID d =
     (let (f, d1) = db_call d
      in if f then (Inl ErrStore, d1)
         else (Inr (sort_key msg_created_at
                      (filter (\<lambda>r. msg_conversation_id r = convID) (messages d1))), d1))"

section \<open>The helpers of the command handlers\<close>

text \<open>\<^verbatim>\<open>ensureConversation\<close> (lines 178 to 190): any error of the lookup, a missing row as
  well as a failing store, leads to the insert.\<close>

definition ensureConversation :: "int \<Rightarrow> int \<Rightarrow> int \<Rightarrow> db \<Rightarrow> (sql_error + int) \<times> db" where
  "ensureConversation productID buyerID sellerID d =
     (let (r, d1) = select_conversation_id productID buyerID sellerID d
      in case r of
           Inr cid \<Rightarrow> (Inr cid, d1)
         | Inl _ \<Rightarrow>
             (let (res, d2) = insert_conversation productID buyerID sellerID d1
              in case res of
                   Inl err \<Rightarrow> (Inl err, d2)
                 | Inr lastID \<Rightarrow> (Inr lastID, d2)))"

text \<open>
  The part of \<^verbatim>\<open>ensureConversation\<close> after its lookup (lines 181 to 189), for runs in
  which another request acts between the lookup and the insert: \<open>r\<close> is what the lookup
  has returned, the store is as it is by then.
\<close>

definition ensure_finish ::
  "int \<Rightarrow> int \<Rightarrow> int \<Rightarrow> sql_error + int \<Rightarrow> db \<Rightarrow> (sql_error + int) \<times> db" where
  "ensure_finish productID buyerID sellerID r d1 =
     (case r of
        Inr cid \<Rightarrow> (Inr cid, d1)
      | Inl _ \<Rightarrow>
          (let (res, d2) = insert_conversation productID buyerID sellerID d1
           in case res of
                Inl err \<Rightarrow> (Inl err, d2)
              | Inr lastID \<Rightarrow> (Inr lastID, d2)))"

text \<open>
  \<^verbatim>\<open>saveMessage\<close> (lines 192 to 201). On a failing insert Go returns
  \<^verbatim>\<open>0, time.Now(), err\<close>; the only caller reads nothing but \<^verbatim>\<open>err\<close> then, so the model
  returns the error alone. The error of the second query is dropped by the source
  (\<^verbatim>\<open>_ = ...Scan(&createdAt)\<close>): \<^verbatim>\<open>createdAt\<close> keeps the zero time.
\<close>

definition saveMessage :: "int \<Rightarrow> int \<Rightarrow> string \<Rightarrow> db \<Rightarrow> (sql_error + int \<times> time) \<times> db" where
  "saveMessage conversationID senderID content d =
     (let (res, d1) = insert_message conversationID senderID content d
      in case res of
           Inl err \<Rightarrow> (Inl err, d1)
         | Inr id64 \<Rightarrow>
             (let (r, d2) = select_created_at id64 d1;
                  createdAt = (case r of Inl _ \<Rightarrow> 0 | Inr t \<Rightarrow> t)
              in (Inr (id64, createdAt), d2)))"

text \<open>\<^verbatim>\<open>getConversationParticipants\<close> (lines 203 to 209).\<close>

definition getConversationParticipants :: "int \<Rightarrow> db \<Rightarrow> int list \<times> db" where
  "getConversationParticipants conversationID d =
     (let (r, d1) = select_buyer_seller conversationID d
      in case r of
           Inl _ \<Rightarrow> ([], d1)
         | Inr (buyerID, sellerID) \<Rightarrow> ([buyerID, sellerID], d1))"

section \<open>The command handlers\<close>

text \<open>
  The handlers that the properties below are about; \<^verbatim>\<open>GetConversations\<close>, a read-only
  listing, and the authentication prologue of \<^verbatim>\<open>Stream\<close> are left out.

  A handler answers with one of fiber's error values or with a JSON body
  \<^verbatim>\<open>models.APIResponse\<close> under a status code. Of the request the model keeps what the
  handler reads: \<open>auth\<close> is the result of \<^verbatim>\<open>middleware.GetUserIDFromContext\<close> (\<open>None\<close>
  when \<^verbatim>\<open>ok\<close> is false), \<open>body\<close> the struct filled by \<^verbatim>\<open>c.BodyParser\<close> (\<open>None\<close> when
  it returns an error; a field missing from the body keeps its zero value).
\<close>

datatype fiber_error = ErrBadRequest | ErrUnauthorized | ErrForbidden | ErrNotFound

datatype resp_data = NoData | ConversationIdData int | MessagesData "msg_row list"

record api_response =
  Success :: bool
  Error :: string
  Data :: resp_data

datatype response = Fail fiber_error | JSON nat api_response

record ensure_body =
  ProductID :: int
  BuyerID :: int
  SellerID :: int

record send_body =
  ConversationID :: int
  Content :: string

record world =
  w_bus :: bus
  w_db :: db

definition api_ok :: "resp_data \<Rightarrow> response" where
  "api_ok dat = JSON 200 \<lparr>Success = True, Error = [], Data = dat\<rparr>"

definition api_failed :: "string \<Rightarrow> response" where
  "api_failed msg = JSON 500 \<lparr>Success = False, Error = msg, Data = NoData\<rparr>"

text \<open>\<^verbatim>\<open>EnsureConversation\<close> (lines 111 to 121).\<close>

definition EnsureConversation :: "ensure_body option \<Rightarrow> db \<Rightarrow> response \<times> db" where
  "EnsureConversation body d =
     (case body of
        None \<Rightarrow> (Fail ErrBadRequest, d)
      | Some p \<Rightarrow>
          (let (r, d1) = ensureConversation (ProductID p) (BuyerID p) (SellerID p) d
           in case r of
                Inl _ \<Rightarrow> (api_failed ''Failed to start conversation'', d1)
              | Inr cid \<Rightarrow> (api_ok (ConversationIdData cid), d1)))"

text \<open>The loop of \<^verbatim>\<open>SendMessage\<close> over the participants (lines 151 to 153).\<close>

fun publish_each :: "(sseEvent \<Rightarrow> payload) \<Rightarrow> int list \<Rightarrow> sseEvent \<Rightarrow> bus \<Rightarrow> panic + bus" where
  "publish_each marshal [] evt s = Inr s"
| "publish_each marshal (pid # pids) evt s =
     (case publishToUser marshal pid evt s of
        Inl e \<Rightarrow> Inl e
      | Inr s1 \<Rightarrow> publish_each marshal pids evt s1)"

text \<open>The loop of \<^verbatim>\<open>Typing\<close> (lines 169 to 174), which skips the caller.\<close>

fun publish_others :: "(sseEvent \<Rightarrow> payload) \<Rightarrow> int \<Rightarrow> int list \<Rightarrow> sseEvent \<Rightarrow> bus \<Rightarrow> panic + bus" where
  "publish_others marshal userID [] evt s = Inr s"
| "publish_others marshal userID (pid # pids) evt s =
     (if pid = userID then publish_others marshal userID pids evt s
      else (case publishToUser marshal pid evt s of
              Inl e \<Rightarrow> Inl e
            | Inr s1 \<Rightarrow> publish_others marshal userID pids evt s1))"

definition message_event :: "int \<Rightarrow> int \<Rightarrow> int \<Rightarrow> string \<Rightarrow> time \<Rightarrow> sseEvent" where
  "message_event msgID conversationID userID content createdAt =
     \<lparr>sse_Type = ''message'',
      sse_Data = [(''id'', JInt msgID), (''conversation_id'', JInt conversationID),
                  (''sender_id'', JInt userID), (''content'', JStr content),
                  (''created_at'', JTime createdAt)]\<rparr>"

definition typing_event :: "int \<Rightarrow> int \<Rightarrow> sseEvent" where
  "typing_event conversationID userID =
     \<lparr>sse_Type = ''typing'',
      sse_Data = [(''conversation_id'', JInt conversationID), (''user_id'', JInt userID)]\<rparr>"

text \<open>\<^verbatim>\<open>SendMessage\<close> (lines 124 to 155). A panic of \<^verbatim>\<open>publishToUser\<close> ends the handler.\<close>

definition SendMessage ::
  "(sseEvent \<Rightarrow> payload) \<Rightarrow> int option \<Rightarrow> send_body option \<Rightarrow> world \<Rightarrow> panic + response \<times> world" where
  "SendMessage marshal auth body w =
     (case auth of
        None \<Rightarrow> Inr (Fail ErrUnauthorized, w)
      | Some userID \<Rightarrow>
          (case body of
             None \<Rightarrow> Inr (Fail ErrBadRequest, w)
           | Some p \<Rightarrow>
               if ConversationID p = 0 \<or> Content p = [] then Inr (Fail ErrBadRequest, w)
               else (let (r, d1) = saveMessage (ConversationID p) userID (Content p) (w_db w)
                     in case r of
                          Inl _ \<Rightarrow> Inr (api_failed ''Failed to send message'', w\<lparr>w_db := d1\<rparr>)
                        | Inr (msgID, createdAt) \<Rightarrow>
                            (let (participants, d2) = getConversationParticipants (ConversationID p) d1;
                                 evt = message_event msgID (ConversationID p) userID (Content p) createdAt
                             in case publish_each marshal participants evt (w_bus w) of
                                  Inl e \<Rightarrow> Inl e
                                | Inr b \<Rightarrow> Inr (api_ok NoData, \<lparr>w_bus = b, w_db = d2\<rparr>)))))"

text \<open>\<^verbatim>\<open>Typing\<close> (lines 158 to 176); its body struct has the one field
  \<^verbatim>\<open>ConversationID\<close>.\<close>

definition Typing ::
  "(sseEvent \<Rightarrow> payload) \<Rightarrow> int option \<Rightarrow> int option \<Rightarrow> world \<Rightarrow> panic + response \<times> world" where
  "Typing marshal auth body w =
     (case auth of
        None \<Rightarrow> Inr (Fail ErrUnauthorized, w)
      | Some userID \<Rightarrow>
          (case body of
             None \<Rightarrow> Inr (Fail ErrBadRequest, w)
           | Some conversationID \<Rightarrow>
               (let (participants, d1) = getConversationParticipants conversationID (w_db w);
                    evt = typing_event conversationID userID
                in case publish_others marshal userID participants evt (w_bus w) of
                     Inl e \<Rightarrow> Inl e
                   | Inr b \<Rightarrow> Inr (api_ok NoData, \<lparr>w_bus = b, w_db = d1\<rparr>))))"

text \<open>
  \<^verbatim>\<open>GetMessages\<close> (lines 232 to 260). \<^verbatim>\<open>strconv.Atoi\<close> is the standard library's, and
  its two results for the path parameter \<^verbatim>\<open>id\<close> are an input: the number, and whether
  the error is non-nil. The source drops the error
  (\<^verbatim>\<open>convID, _ := strconv.Atoi(c.Params("id"))\<close>) and goes on with the number that came
  with it. When the error is nil the number is the id that the request names.
\<close>

definition GetMessages :: "int option \<Rightarrow> int \<times> bool \<Rightarrow> db \<Rightarrow> response \<times> db" where
  "GetMessages auth atoi d =
     (case auth of
        None \<Rightarrow> (Fail ErrUnauthorized, d)
      | Some userID \<Rightarrow>
          (let convID = fst atoi;
               (r, d1) = select_buyer_seller convID d
           in case r of
                Inl _ \<Rightarrow> (Fail ErrNotFound, d1)
              | Inr (buyerID, sellerID) \<Rightarrow>
                  if userID \<noteq> buyerID \<and> userID \<noteq> sellerID then (Fail ErrForbidden, d1)
                  else (let (rows, d2) = select_messages convID d1
                        in case rows of
                             Inl _ \<Rightarrow> (api_failed ''Failed to get messages'', d2)
                           | Inr list \<Rightarrow> (api_ok (MessagesData list), d2))))"

text \<open>The messages that a response carries.\<close>

fun response_messages :: "response \<Rightarrow> msg_row list" where
  "response_messages (Fail e) = []"
| "response_messages (JSON code r) = (case Data r of MessagesData ms \<Rightarrow> ms | _ \<Rightarrow> [])"

section \<open>Runs of the bus\<close>

text \<open>
  The critical sections of \<^verbatim>\<open>Stream\<close> as operations: a registration, which makes its
  own channel, and the locked section of a cleanup for a user and a channel.
\<close>

datatype bus_op = Register int | Deregister int chan_id

fun apply_op :: "bus_op \<Rightarrow> bus \<Rightarrow> bus" where
  "apply_op (Register userID) s = snd (stream_register userID s)"
| "apply_op (Deregister userID msgCh) s = deregister userID msgCh s"

fun run_ops :: "bus_op list \<Rightarrow> bus \<Rightarrow> bus" where
  "run_ops [] s = s"
| "run_ops (x # ops) s = run_ops ops (apply_op x s)"

text \<open>
  The net effect of a sequence, in the spec's words: \<^verbatim>\<open>register(userID)\<close> associates a new
  handle with the user, \<^verbatim>\<open>deregister(userID, handle)\<close> removes exactly that handle from
  the user's set and is a no-op if it is not there. Handles are numbered in the order in
  which they are issued.
\<close>

record handles =
  issued :: nat
  active :: "int \<Rightarrow> chan_id set"

definition handles_init :: handles where
  "handles_init = \<lparr>issued = 0, active = (\<lambda>_. {})\<rparr>"

fun net_op :: "bus_op \<Rightarrow> handles \<Rightarrow> handles" where
  "net_op (Register userID) t =
     t\<lparr>issued := Suc (issued t), active := (active t)(userID := insert (issued t) (active t userID))\<rparr>"
| "net_op (Deregister userID h) t =
     t\<lparr>active := (active t)(userID := active t userID - {h})\<rparr>"

fun net_effect :: "bus_op list \<Rightarrow> handles \<Rightarrow> handles" where
  "net_effect [] t = t"
| "net_effect (x # ops) t = net_effect ops (net_op x t)"

text \<open>
  The states of the bus under every interleaving of the goroutines. A step is what one
  goroutine does without another one acting in between: a section under the write lock
  (the registration, the removal in the cleanup) or one operation on one channel (a
  close, one send of a publisher's loop, one receive of a stream writer). A publisher
  sends to the channels of a snapshot it has read earlier, so a send can go to any
  channel, also to one that is in no slice any more. \<^verbatim>\<open>Stream\<close> closes the channel it
  has made and registered once, after its removal, so a closed channel is in no slice.
\<close>

inductive reachable :: "bus \<Rightarrow> bool" where
  start: "reachable bus_init"
| registered: "reachable s \<Longrightarrow> reachable (snd (stream_register userID s))"
| deregistered: "reachable s \<Longrightarrow> reachable (deregister userID msgCh s)"
| closed: "reachable s \<Longrightarrow> \<forall>userID. msgCh \<notin> set (subs_of (us_m s) userID) \<Longrightarrow>
     close_chan msgCh s = Inr s' \<Longrightarrow> reachable s'"
| sent: "reachable s \<Longrightarrow> try_send p (chans s ch) = Inr c' \<Longrightarrow>
     reachable (s\<lparr>chans := (chans s)(ch := c')\<rparr>)"
| received: "reachable s \<Longrightarrow> reachable (snd (stream_recv msgCh s))"

text \<open>What holds of every such state: a user's channels are pairwise different, were made
  by a registration with capacity 32, are not closed, and belong to no other user.\<close>

definition bus_inv :: "bus \<Rightarrow> bool" where
  "bus_inv s \<longleftrightarrow>
     (\<forall>u. distinct (subs_of (us_m s) u) \<and>
          (\<forall>ch \<in> set (subs_of (us_m s) u).
              ch < next_chan s \<and> \<not> ch_closed (chans s ch) \<and> ch_cap (chans s ch) = 32)) \<and>
     (\<forall>u v. u \<noteq> v \<longrightarrow> set (subs_of (us_m s) u) \<inter> set (subs_of (us_m s) v) = {})"

text \<open>The store assigns ids that no row has yet.\<close>

definition fresh_ids :: "db \<Rightarrow> bool" where
  "fresh_ids d \<longleftrightarrow>
     (\<forall>r \<in> set (conversations d). conv_id r < conv_auto d) \<and>
     (\<forall>r \<in> set (messages d). msg_id r < msg_auto d)"



text \<open>
  A small world for concrete runs: conversation 1 about product 5 between buyer 1 and
  seller 2 with one message, a store that does not fail, and a bus on which user 1 has
  registered channel 0 and user 2 channel 1.
\<close>

definition demo_db :: db where
  "demo_db = \<lparr>conversations = [\<lparr>conv_id = 1, conv_product_id = 5, conv_buyer_id = 1, conv_seller_id = 2\<rparr>],
              messages = [\<lparr>msg_id = 1, msg_conversation_id = 1, msg_sender_id = 1,
                           msg_content = ''hello'', msg_created_at = 900, msg_read_at = None\<rparr>],
              conv_auto = 2, msg_auto = 2, db_clock = 1000, faults = []\<rparr>"

definition demo_bus :: bus where
  "demo_bus = snd (stream_register 2 (snd (stream_register 1 bus_init)))"

definition demo_world :: world where
  "demo_world = \<lparr>w_bus = demo_bus, w_db = demo_db\<rparr>"

text \<open>User 1 with a second stream: channels 0 and 2.\<close>

definition demo_bus2 :: bus where
  "demo_bus2 = snd (stream_register 1 demo_bus)"

text \<open>A serializer for concrete runs: the type tag followed by the keys of the data.\<close>

definition key_marshal :: "sseEvent \<Rightarrow> payload" where
  "key_marshal e = sse_Type e @ concat (map (\<lambda>kv. CHR '' '' # fst kv) (sse_Data e))"


text \<open>How a bus and the spec's handle sets correspond during a run.\<close>

definition tracks :: "bus \<Rightarrow> handles \<Rightarrow> bool" where
  "tracks s t \<longleftrightarrow> next_chan s = issued t \<and>
     (\<forall>u. set (subs_of (us_m s) u) = active t u \<and> distinct (subs_of (us_m s) u)
          \<and> (\<forall>c \<in> active t u. c < issued t))"

section \<open>Registration and deregistration\<close>

lemma first_index_None: "first_index c xs = None \<longleftrightarrow> c \<notin> set xs"
  by (induction xs) auto

lemma first_index_Some:
  "first_index c xs = Some i \<Longrightarrow> take i xs @ drop (Suc i) xs = remove1 c xs"
  by (induction xs arbitrary: i) (auto split: if_splits)

lemma subs_of_deregister:
  "subs_of (us_m (deregister u c s)) v =
     (if v = u then remove1 c (subs_of (us_m s) u) else subs_of (us_m s) v)"
  by (auto simp: deregister_def Let_def subs_of_def first_index_None first_index_Some remove1_idem
           split: option.splits)

lemma deregister_frame:
  "chans (deregister u c s) = chans s" "next_chan (deregister u c s) = next_chan s"
  by (auto simp: deregister_def Let_def split: option.splits)

lemma subs_of_register:
  "subs_of (us_m (snd (stream_register u s))) v =
     (if v = u then subs_of (us_m s) u @ [next_chan s] else subs_of (us_m s) v)"
  by (auto simp: stream_register_def Let_def subs_of_def)

lemma register_frame:
  "next_chan (snd (stream_register u s)) = Suc (next_chan s)"
  "chans (snd (stream_register u s)) = (chans s)(next_chan s := new_chan 32)"
  "fst (stream_register u s) = next_chan s"
  by (auto simp: stream_register_def Let_def)

lemma tracks_step: "tracks s t \<Longrightarrow> tracks (apply_op x s) (net_op x t)"
proof (cases x)
  case (Register u)
  assume "tracks s t"
  then show ?thesis unfolding Register tracks_def
    by (auto simp: subs_of_register register_frame less_Suc_eq)
next
  case (Deregister u c)
  assume "tracks s t"
  then show ?thesis unfolding Deregister tracks_def
    by (auto simp: subs_of_deregister deregister_frame)
qed

lemma tracks_run: "tracks s t \<Longrightarrow> tracks (run_ops ops s) (net_effect ops t)"
  by (induction ops arbitrary: s t) (auto simp: tracks_step)

lemma tracks_init: "tracks bus_init handles_init"
  by (simp add: tracks_def bus_init_def handles_init_def subs_of_def)

lemma deregister_absent: "msgCh \<notin> set (subs_of (us_m s) u) \<Longrightarrow> deregister u msgCh s = s"
  by (simp add: deregister_def first_index_None[THEN iffD2])

text \<open>
  C1. After every sequence of registrations and deregistrations from the empty bus, and
  for every user, the channels in the user's slice are exactly the handles that the net
  effect of the sequence leaves active for that user, each of them once; and a
  deregistration of a channel that is not in the user's slice (removed already, or never
  registered there) leaves the bus as it is.
\<close>

theorem register_deregister_net_effect:
  "set (subs_of (us_m (run_ops ops bus_init)) u) = active (net_effect ops handles_init) u \<and>
   distinct (subs_of (us_m (run_ops ops bus_init)) u) \<and>
   (msgCh \<notin> set (subs_of (us_m (run_ops ops bus_init)) u) \<longrightarrow>
      deregister u msgCh (run_ops ops bus_init) = run_ops ops bus_init)"
  using tracks_run[OF tracks_init, of ops] by (simp add: tracks_def deregister_absent)

theorem register_deregister_net_effect_witness:
  "set (subs_of (us_m (run_ops [Register 1, Register 1, Deregister 1 0] bus_init)) 1) = {1} \<and>
   0 \<notin> set (subs_of (us_m (run_ops [Register 1, Register 1, Deregister 1 0] bus_init)) 1) \<and>
   deregister 1 0 (run_ops [Register 1, Register 1, Deregister 1 0] bus_init) =
     run_ops [Register 1, Register 1, Deregister 1 0] bus_init"
proof -
  have e: "subs_of (us_m (run_ops [Register 1, Register 1, Deregister 1 0] bus_init)) 1 = [1]"
    by (simp add: stream_register_def deregister_def subs_of_def bus_init_def Let_def)
  from register_deregister_net_effect [of "[Register 1, Register 1, Deregister 1 0]" 1 0] e
  show ?thesis by simp
qed

section \<open>Delivery to the channels of a user\<close>

lemma try_send_open:
  "\<not> ch_closed c \<Longrightarrow> try_send p c =
     Inr (c\<lparr>ch_buf := ch_buf c @ replicate (min (ch_cap c - length (ch_buf c)) 1) p\<rparr>)"
proof (cases "length (ch_buf c) < ch_cap c")
  case True
  assume "\<not> ch_closed c"
  moreover from True have "min (ch_cap c - length (ch_buf c)) 1 = 1" by simp
  ultimately show ?thesis using True by (simp add: try_send_def)
next
  case False
  assume "\<not> ch_closed c"
  moreover from False have "min (ch_cap c - length (ch_buf c)) 1 = 0" by simp
  ultimately show ?thesis using False by (simp add: try_send_def)
qed

lemma min_room_step:
  "min (c - l) 1 + min (c - (l + min (c - l) 1)) k = min (c - l) (Suc k)" for c l k :: nat
  by (cases "l < c") (auto simp: min_def)

lemma deliver_open:
  "\<forall>c \<in> set cs. \<not> ch_closed (h c) \<Longrightarrow>
   deliver cs p h = Inr (\<lambda>c. (h c)\<lparr>ch_buf := ch_buf (h c) @
       replicate (min (ch_cap (h c) - length (ch_buf (h c))) (count_list cs c)) p\<rparr>)"
proof (induction cs arbitrary: h)
  case Nil
  then show ?case by simp
next
  case (Cons a cs)
  let ?h1 = "h(a := (h a)\<lparr>ch_buf := ch_buf (h a) @ replicate (min (ch_cap (h a) - length (ch_buf (h a))) 1) p\<rparr>)"
  from Cons.prems have open1: "\<forall>c \<in> set cs. \<not> ch_closed (?h1 c)" by simp
  from Cons.prems have "\<not> ch_closed (h a)" by simp
  then have step: "deliver (a # cs) p h = deliver cs p ?h1"
    by (simp add: try_send_open)
  have funeq: "(\<lambda>c. (?h1 c)\<lparr>ch_buf := ch_buf (?h1 c) @
           replicate (min (ch_cap (?h1 c) - length (ch_buf (?h1 c))) (count_list cs c)) p\<rparr>)
      = (\<lambda>c. (h c)\<lparr>ch_buf := ch_buf (h c) @
           replicate (min (ch_cap (h c) - length (ch_buf (h c))) (count_list (a # cs) c)) p\<rparr>)"
  proof (rule ext)
    fix c
    show "(?h1 c)\<lparr>ch_buf := ch_buf (?h1 c) @
           replicate (min (ch_cap (?h1 c) - length (ch_buf (?h1 c))) (count_list cs c)) p\<rparr>
      = (h c)\<lparr>ch_buf := ch_buf (h c) @
           replicate (min (ch_cap (h c) - length (ch_buf (h c))) (count_list (a # cs) c)) p\<rparr>"
    proof (cases "c = a")
      case True
      have "replicate (min (ch_cap (h a) - length (ch_buf (h a))) 1) p @
            replicate (min (ch_cap (h a) - (length (ch_buf (h a)) + min (ch_cap (h a) - length (ch_buf (h a))) 1)) (count_list cs a)) p
          = replicate (min (ch_cap (h a) - length (ch_buf (h a))) (Suc (count_list cs a))) p"
        unfolding replicate_add[symmetric] 
        by (simp only: min_room_step)
      with True show ?thesis by simp
    next
      case False
      then show ?thesis by simp
    qed
  qed
  note step
  also note Cons.IH[OF open1]
  also note funeq
  finally show ?case .
qed

text \<open>The loop panics when the slice it walks holds a closed channel: a send on a closed
  channel is ready at once, so the \<^verbatim>\<open>default\<close> case does not protect it. The results on
  delivery below are therefore about slices of open channels.\<close>

lemma deliver_closed_panics:
  "c \<in> set cs \<Longrightarrow> ch_closed (h c) \<Longrightarrow> deliver cs p h = Inl SendOnClosedChannel"
proof (induction cs arbitrary: h)
  case Nil
  then show ?case by simp
next
  case (Cons a cs)
  show ?case
  proof (cases "ch_closed (h a)")
    case True
    then show ?thesis by (simp add: try_send_def)
  next
    case False
    with Cons.prems have "c \<in> set cs" and "c \<noteq> a" by auto
    with Cons.prems(2) Cons.IH show ?thesis
      by (simp add: try_send_def)
  qed
qed

lemma publishToUser_deliver:
  "publishToUser marshal u evt s =
     (case deliver (subs_of (us_m s) u) (marshal evt) (chans s) of
        Inl e \<Rightarrow> Inl e | Inr h \<Rightarrow> Inr (s\<lparr>chans := h\<rparr>))"
  by (simp add: publishToUser_def Let_def)

lemma bus_inv_init: "bus_inv bus_init"
  by (simp add: bus_inv_def bus_init_def subs_of_def)

lemma bus_inv_register: "bus_inv s \<Longrightarrow> bus_inv (snd (stream_register u s))"
  unfolding bus_inv_def
  by (auto simp: subs_of_register register_frame new_chan_def less_Suc_eq)

lemma bus_inv_deregister:
  assumes inv: "bus_inv s"
  shows "bus_inv (deregister u c s)"
proof -
  let ?s' = "deregister u c s"
  have subs': "subs_of (us_m ?s') v = (if v = u then remove1 c (subs_of (us_m s) u) else subs_of (us_m s) v)" for v
    by (simp add: subs_of_deregister)
  from inv have d: "distinct (subs_of (us_m s) v)" for v by (simp add: bus_inv_def)
  from inv have disj: "v \<noteq> v' \<Longrightarrow> set (subs_of (us_m s) v) \<inter> set (subs_of (us_m s) v') = {}" for v v'
    by (simp add: bus_inv_def)
  have sub: "set (subs_of (us_m ?s') v) \<subseteq> set (subs_of (us_m s) v)" for v
    using set_remove1_subset[of c "subs_of (us_m s) u"] by (auto simp: subs')
  show ?thesis unfolding bus_inv_def
  proof (intro conjI allI impI ballI)
    fix v show "distinct (subs_of (us_m ?s') v)" using d by (simp add: subs')
  next
    fix v x assume "x \<in> set (subs_of (us_m ?s') v)"
    with sub have x0: "x \<in> set (subs_of (us_m s) v)" by blast
    from inv x0 show "x < next_chan ?s'" by (simp add: bus_inv_def deregister_frame)
    from inv x0 show "\<not> ch_closed (chans ?s' x)" by (simp add: bus_inv_def deregister_frame)
    from inv x0 show "ch_cap (chans ?s' x) = 32" by (simp add: bus_inv_def deregister_frame)
  next
    fix v v' :: int assume "v \<noteq> v'"
    from disj[OF this] sub[of v] sub[of v']
    show "set (subs_of (us_m ?s') v) \<inter> set (subs_of (us_m ?s') v') = {}" by blast
  qed
qed

text \<open>After the removal in its cleanup a registered channel is in no slice.\<close>

lemma deregister_removed:
  assumes inv: "bus_inv s" and mem: "c \<in> set (subs_of (us_m s) u)"
  shows "c \<notin> set (subs_of (us_m (deregister u c s)) v)"
proof (cases "v = u")
  case True
  from inv have "distinct (subs_of (us_m s) u)" by (simp add: bus_inv_def)
  with True show ?thesis by (simp add: subs_of_deregister)
next
  case False
  with inv have "set (subs_of (us_m s) v) \<inter> set (subs_of (us_m s) u) = {}"
    by (simp add: bus_inv_def)
  with mem False show ?thesis by (auto simp: subs_of_deregister)
qed

lemma close_chan_Inr:
  "close_chan c s = Inr s' \<Longrightarrow>
     \<not> ch_closed (chans s c) \<and> s' = s\<lparr>chans := (chans s)(c := (chans s c)\<lparr>ch_closed := True\<rparr>)\<rparr>"
  by (auto simp: close_chan_def split: if_splits)

lemma bus_inv_close:
  assumes inv: "bus_inv s" and free: "\<forall>u. c \<notin> set (subs_of (us_m s) u)"
    and res: "close_chan c s = Inr s'"
  shows "bus_inv s'"
proof -
  from close_chan_Inr[OF res]
  have s': "s' = s\<lparr>chans := (chans s)(c := (chans s c)\<lparr>ch_closed := True\<rparr>)\<rparr>" by simp
  from free have ne: "x \<in> set (subs_of (us_m s) u) \<Longrightarrow> x \<noteq> c" for x u by blast
  from inv show ?thesis unfolding bus_inv_def s' by (auto dest: ne)
qed

lemma bus_inv_sent:
  assumes inv: "bus_inv s" and res: "try_send p (chans s ch) = Inr c'"
  shows "bus_inv (s\<lparr>chans := (chans s)(ch := c')\<rparr>)"
proof -
  from res have "ch_closed c' = ch_closed (chans s ch)" "ch_cap c' = ch_cap (chans s ch)"
    by (auto simp: try_send_def split: if_splits)
  with inv show ?thesis unfolding bus_inv_def by auto
qed

lemma bus_inv_recv: "bus_inv s \<Longrightarrow> bus_inv (snd (stream_recv c s))"
  unfolding bus_inv_def by (auto simp: stream_recv_def split: list.splits)

text \<open>In every interleaving the channels in the table are open, pairwise different, of
  capacity 32 and in one slice only.\<close>

lemma reachable_inv: "reachable s \<Longrightarrow> bus_inv s"
  by (induction rule: reachable.induct)
     (auto intro: bus_inv_init bus_inv_register bus_inv_deregister bus_inv_close bus_inv_sent
                  bus_inv_recv)

text \<open>The whole cleanup of a registered channel, and a whole run of the send loop, are
  sequences of such steps.\<close>

lemma stream_cleanup_reachable:
  assumes "reachable s" and "c \<in> set (subs_of (us_m s) u)" and "stream_cleanup u c s = Inr s'"
  shows "reachable s'"
proof -
  from assms(1) have r: "reachable (deregister u c s)" by (rule reachable.deregistered)
  from deregister_removed[OF reachable_inv[OF assms(1)] assms(2)]
  have "\<forall>v. c \<notin> set (subs_of (us_m (deregister u c s)) v)" by blast
  from reachable.closed[OF r this] assms(3) show ?thesis by (simp add: stream_cleanup_def)
qed

lemma deliver_reachable:
  "reachable (s\<lparr>chans := h\<rparr>) \<Longrightarrow> deliver cs p h = Inr h' \<Longrightarrow> reachable (s\<lparr>chans := h'\<rparr>)"
proof (induction cs arbitrary: h)
  case Nil
  then show ?case by simp
next
  case (Cons a cs)
  from Cons.prems(2) obtain c' where c': "try_send p (h a) = Inr c'"
    and rest: "deliver cs p (h(a := c')) = Inr h'"
    by (auto split: sum.splits)
  from reachable.sent[OF Cons.prems(1), of p a c'] c'
  have "reachable (s\<lparr>chans := h(a := c')\<rparr>)" by simp
  from Cons.IH[OF this rest] show ?case .
qed

lemma publish_sends_reachable:
  assumes "reachable s" and "publish_sends marshal evt subs s = Inr s'"
  shows "reachable s'"
proof -
  from assms(1) have r: "reachable (s\<lparr>chans := chans s\<rparr>)" by simp
  from assms(2) show ?thesis
    using deliver_reachable[OF r, of subs "marshal evt"] assms(1)
    by (auto simp: publish_sends_def Let_def split: if_splits sum.splits)
qed

lemma publishToUser_phases:
  "publishToUser marshal userID evt s = publish_sends marshal evt (publish_snapshot userID s) s"
  by (simp add: publishToUser_def publish_sends_def publish_snapshot_def)

lemma count_list_distinct: "distinct xs \<Longrightarrow> count_list xs x = (if x \<in> set xs then 1 else 0)"
  by (induction xs) auto

text \<open>Run without another goroutine acting between its snapshot and its sends, a call
  in such a state returns normally: each channel of the user with room gets the payload,
  every other channel is as before.\<close>

lemma publishToUser_inv:
  assumes "bus_inv s"
  shows "publishToUser marshal u evt s =
     Inr (s\<lparr>chans := \<lambda>ch. if ch \<in> set (subs_of (us_m s) u) \<and> length (ch_buf (chans s ch)) < 32
                           then (chans s ch)\<lparr>ch_buf := ch_buf (chans s ch) @ [marshal evt]\<rparr>
                           else chans s ch\<rparr>)"
proof -
  from assms have op: "\<forall>c \<in> set (subs_of (us_m s) u). \<not> ch_closed (chans s c)"
    and cap: "\<And>c. c \<in> set (subs_of (us_m s) u) \<Longrightarrow> ch_cap (chans s c) = 32"
    and d: "distinct (subs_of (us_m s) u)"
    by (auto simp: bus_inv_def)
  have "(\<lambda>c. (chans s c)\<lparr>ch_buf := ch_buf (chans s c) @
           replicate (min (ch_cap (chans s c) - length (ch_buf (chans s c)))
                          (count_list (subs_of (us_m s) u) c)) (marshal evt)\<rparr>)
      = (\<lambda>ch. if ch \<in> set (subs_of (us_m s) u) \<and> length (ch_buf (chans s ch)) < 32
                           then (chans s ch)\<lparr>ch_buf := ch_buf (chans s ch) @ [marshal evt]\<rparr>
                           else chans s ch)"
  proof (rule ext)
    fix c
    show "(chans s c)\<lparr>ch_buf := ch_buf (chans s c) @
           replicate (min (ch_cap (chans s c) - length (ch_buf (chans s c)))
                          (count_list (subs_of (us_m s) u) c)) (marshal evt)\<rparr>
      = (if c \<in> set (subs_of (us_m s) u) \<and> length (ch_buf (chans s c)) < 32
                           then (chans s c)\<lparr>ch_buf := ch_buf (chans s c) @ [marshal evt]\<rparr>
                           else chans s c)"
    proof (cases "c \<in> set (subs_of (us_m s) u)")
      case True
      have m: "min (32 - length (ch_buf (chans s c))) (1::nat) =
                 (if length (ch_buf (chans s c)) < 32 then 1 else 0)"
        by simp
      from True d have "count_list (subs_of (us_m s) u) c = 1"
        by (simp add: count_list_distinct)
      with cap[OF True] True show ?thesis
        by (simp only: m) simp
    next
      case False
      with d show ?thesis by (simp add: count_list_distinct)
    qed
  qed
  with deliver_open[OF op, of "marshal evt"] show ?thesis
    by (simp add: publishToUser_deliver)
qed

section \<open>A cleanup between the snapshot and the sends\<close>

lemma demo_bus_reachable: "reachable demo_bus"
  unfolding demo_bus_def by (intro reachable.registered reachable.start)

lemma demo_bus_subs:
  "subs_of (us_m demo_bus) 1 = [0]" "subs_of (us_m demo_bus) 2 = [1]" "subs_of (us_m demo_bus) 3 = []"
  unfolding demo_bus_def
  by (simp_all add: subs_of_register register_frame, simp_all add: bus_init_def subs_of_def)

lemma demo_bus_chans:
  "chans demo_bus 0 = new_chan 32" "chans demo_bus (Suc 0) = new_chan 32"
  unfolding demo_bus_def
  by (simp_all add: register_frame, simp_all add: bus_init_def)

lemma demo_bus2_reachable: "reachable demo_bus2"
  unfolding demo_bus2_def by (intro reachable.registered demo_bus_reachable)

lemma demo_bus2_subs: "subs_of (us_m demo_bus2) 1 = [0, 2]"
  unfolding demo_bus2_def
  by (simp add: subs_of_register demo_bus_subs, simp add: demo_bus_def register_frame bus_init_def)

lemma demo_bus2_chans: "chans demo_bus2 0 = new_chan 32" "chans demo_bus2 2 = new_chan 32"
  unfolding demo_bus2_def
  by (simp_all add: register_frame demo_bus_chans, simp_all add: demo_bus_def register_frame bus_init_def)

text \<open>
  C2. User 1 has two open streams, channels 0 and 2. A \<^verbatim>\<open>publishToUser\<close> call for user 1
  reads its snapshot, both channels; then the stream of channel 2 ends and its cleanup
  removes and closes the channel; then the call runs its sends on the snapshot. Channel 2
  is the last of the slice, so its removal writes no element of the array that the
  snapshot shares, and the snapshot still shows it. The send on the closed channel
  panics: the call does not return normally.
\<close>

theorem publish_after_cleanup_panics:
  "reachable demo_bus2 \<and> publish_snapshot 1 demo_bus2 = [0, 2] \<and>
   publishToUser key_marshal 1 \<lparr>sse_Type = ''typing'', sse_Data = []\<rparr> demo_bus2 =
     publish_sends key_marshal \<lparr>sse_Type = ''typing'', sse_Data = []\<rparr>
       (publish_snapshot 1 demo_bus2) demo_bus2 \<and>
   (\<exists>s1. stream_cleanup 1 2 demo_bus2 = Inr s1 \<and> reachable s1 \<and>
         subs_of (us_m s1) 1 = [0] \<and>
         publish_sends key_marshal \<lparr>sse_Type = ''typing'', sse_Data = []\<rparr>
            (publish_snapshot 1 demo_bus2) s1 = Inl SendOnClosedChannel)"
proof -
  let ?s1 = "(deregister 1 2 demo_bus2)\<lparr>chans := (chans demo_bus2)(2 := (chans demo_bus2 2)\<lparr>ch_closed := True\<rparr>)\<rparr>"
  have snap: "publish_snapshot 1 demo_bus2 = [0, 2]"
    by (simp add: publish_snapshot_def demo_bus2_subs)
  have cl: "stream_cleanup 1 2 demo_bus2 = Inr ?s1"
    by (simp add: stream_cleanup_def close_chan_def deregister_frame demo_bus2_chans new_chan_def)
  have mem: "2 \<in> set (subs_of (us_m demo_bus2) 1)" by (simp add: demo_bus2_subs)
  have r1: "reachable ?s1"
    by (rule stream_cleanup_reachable[OF demo_bus2_reachable mem cl])
  have rest: "subs_of (us_m ?s1) 1 = [0]"
    by (simp add: subs_of_deregister demo_bus2_subs)
  have "deliver [0, 2] (key_marshal \<lparr>sse_Type = ''typing'', sse_Data = []\<rparr>) (chans ?s1)
          = Inl SendOnClosedChannel"
    by (rule deliver_closed_panics[of 2]) simp_all
  then have "publish_sends key_marshal \<lparr>sse_Type = ''typing'', sse_Data = []\<rparr>
            (publish_snapshot 1 demo_bus2) ?s1 = Inl SendOnClosedChannel"
    by (simp add: publish_sends_def snap del: deliver.simps)
  with demo_bus2_reachable snap cl r1 rest
    publishToUser_phases[of key_marshal 1 "\<lparr>sse_Type = ''typing'', sse_Data = []\<rparr>" demo_bus2]
  show ?thesis by blast
qed

section \<open>Publishing to several users\<close>

lemma deliver_append:
  "deliver (xs @ ys) p h = (case deliver xs p h of Inl e \<Rightarrow> Inl e | Inr h1 \<Rightarrow> deliver ys p h1)"
  by (induction xs arbitrary: h) (auto split: sum.splits)

lemma publish_each_deliver:
  "publish_each marshal pids evt s =
     (case deliver (concat (map (subs_of (us_m s)) pids)) (marshal evt) (chans s) of
        Inl e \<Rightarrow> Inl e | Inr h \<Rightarrow> Inr (s\<lparr>chans := h\<rparr>))"
proof (induction pids arbitrary: s)
  case Nil
  then show ?case by simp
next
  case (Cons pid pids)
  show ?case
    by (simp add: publishToUser_deliver deliver_append Cons.IH split: sum.splits)
qed




lemma publish_each_inv:
  assumes "bus_inv s"
  shows "publish_each marshal pids evt s =
     Inr (s\<lparr>chans := \<lambda>ch. (chans s ch)\<lparr>ch_buf := ch_buf (chans s ch) @
            replicate (min (ch_cap (chans s ch) - length (ch_buf (chans s ch)))
                           (count_list (concat (map (subs_of (us_m s)) pids)) ch)) (marshal evt)\<rparr>\<rparr>)"
proof -
  from assms have "\<forall>c \<in> set (concat (map (subs_of (us_m s)) pids)). \<not> ch_closed (chans s c)"
    by (auto simp: bus_inv_def)
  from deliver_open[OF this, of "marshal evt"] show ?thesis
    by (simp add: publish_each_deliver)
qed

section \<open>The store and SendMessage\<close>


lemma db_call_tables:
  "conversations (snd (db_call d)) = conversations d"
  "messages (snd (db_call d)) = messages d"
  "conv_auto (snd (db_call d)) = conv_auto d"
  "msg_auto (snd (db_call d)) = msg_auto d"
  "db_clock (snd (db_call d)) = db_clock d"
  by (auto simp: db_call_def split: list.splits)

lemma no_fault_Nil: "no_fault n []"
  by (cases n) simp_all

lemma db_call_answers:
  "answers (Suc n) d \<Longrightarrow> \<not> fst (db_call d) \<and> answers n (snd (db_call d))"
  by (cases "faults d") (auto simp: answers_def db_call_def no_fault_Nil)

lemma answers_no_faults: "faults d = [] \<Longrightarrow> answers n d"
  by (simp add: answers_def no_fault_Nil)

lemma find_snoc_fresh:
  "\<forall>r \<in> set xs. \<not> P r \<Longrightarrow> find P (xs @ [y]) = (if P y then Some y else None)"
  by (induction xs) auto


lemma new_msg_row_sel:
  "msg_id (new_msg_row conversationID senderID content d) = msg_auto d"
  "msg_created_at (new_msg_row conversationID senderID content d) = db_clock d"
  by (simp_all add: new_msg_row_def)

lemma new_msg_row_db_call:
  "new_msg_row conversationID senderID content (snd (db_call d)) =
   new_msg_row conversationID senderID content d"
  by (simp add: new_msg_row_def db_call_tables)

text \<open>When the store answers the insert and the lookup of \<^verbatim>\<open>created_at\<close>, and the new
  id is not in use, \<^verbatim>\<open>saveMessage\<close> returns the id and the timestamp of the row it has
  appended.\<close>

lemma saveMessage_ok:
  assumes ans: "answers (Suc (Suc n)) d" and fresh: "\<forall>r \<in> set (messages d). msg_id r \<noteq> msg_auto d"
  shows "\<exists>d'. saveMessage conversationID senderID content d = (Inr (msg_auto d, db_clock d), d') \<and>
           messages d' = messages d @ [new_msg_row conversationID senderID content d] \<and>
           conversations d' = conversations d \<and> answers n d'"
proof -
  let ?row = "new_msg_row conversationID senderID content d"
  let ?d1 = "(snd (db_call d))\<lparr>messages := messages d @ [?row], msg_auto := msg_auto d + 1\<rparr>"
  let ?d2 = "snd (db_call ?d1)"
  from db_call_answers[OF ans] have a0: "\<not> fst (db_call d)" and a1: "answers (Suc n) (snd (db_call d))"
    by simp_all
  have ins: "insert_message conversationID senderID content d = (Inr (msg_auto d), ?d1)"
    using a0 by (simp add: insert_message_def split_beta db_call_tables new_msg_row_db_call)
  from a1 have "answers (Suc n) ?d1" by (simp add: answers_def)
  from db_call_answers[OF this] have b0: "\<not> fst (db_call ?d1)" and b1: "answers n ?d2"
    by simp_all
  have m2: "messages ?d2 = messages d @ [?row]" by (simp add: db_call_tables)
  have c2: "conversations ?d2 = conversations d" by (simp add: db_call_tables)
  have "find (\<lambda>r. msg_id r = msg_auto d) (messages d @ [?row]) = Some ?row"
    using find_snoc_fresh[of "messages d" "\<lambda>r. msg_id r = msg_auto d" ?row] fresh
    by (simp add: new_msg_row_sel)
  then have sel: "select_created_at (msg_auto d) ?d1 = (Inr (db_clock d), ?d2)"
    using b0 by (simp add: select_created_at_def split_beta m2 new_msg_row_sel del: db.simps)
  have "saveMessage conversationID senderID content d = (Inr (msg_auto d, db_clock d), ?d2)"
    by (simp add: saveMessage_def ins sel del: db.simps)
  with m2 c2 b1 show ?thesis by blast
qed

lemma getConversationParticipants_found:
  assumes "\<not> fst (db_call d)"
    and "find (\<lambda>r. conv_id r = conversationID) (conversations d) = Some c"
  shows "getConversationParticipants conversationID d =
           ([conv_buyer_id c, conv_seller_id c], snd (db_call d))"
  using assms
  by (simp add: getConversationParticipants_def select_buyer_seller_def db_call_tables
        split_beta)

lemma getConversationParticipants_missing:
  assumes "find (\<lambda>r. conv_id r = conversationID) (conversations d) = None"
  shows "getConversationParticipants conversationID d = ([], snd (db_call d))"
  using assms
  by (simp add: getConversationParticipants_def select_buyer_seller_def db_call_tables
        split_beta)

lemma SendMessage_stored:
  assumes "fresh_ids (w_db w)" and "answers 3 (w_db w)"
    and "ConversationID p \<noteq> 0" and "Content p \<noteq> []"
    and "find (\<lambda>r. conv_id r = ConversationID p) (conversations (w_db w)) = Some c"
  shows "\<exists>d'. SendMessage marshal (Some userID) (Some p) w =
     (case publish_each marshal [conv_buyer_id c, conv_seller_id c]
             (message_event (msg_auto (w_db w)) (ConversationID p) userID (Content p) (db_clock (w_db w)))
             (w_bus w) of
        Inl e \<Rightarrow> Inl e
      | Inr b \<Rightarrow> Inr (api_ok NoData, \<lparr>w_bus = b, w_db = d'\<rparr>)) \<and>
     messages d' = messages (w_db w) @
        [new_msg_row (ConversationID p) userID (Content p) (w_db w)] \<and>
     conversations d' = conversations (w_db w)"
proof -
  let ?d = "w_db w"
  from assms(1) have fresh: "\<forall>r \<in> set (messages ?d). msg_id r \<noteq> msg_auto ?d"
    by (auto simp: fresh_ids_def)
  from assms(2) have "answers (Suc (Suc 1)) ?d" by (simp add: numeral_3_eq_3)
  from saveMessage_ok[OF this fresh, of "ConversationID p" userID "Content p"]
  obtain d1 where
    sv: "saveMessage (ConversationID p) userID (Content p) ?d = (Inr (msg_auto ?d, db_clock ?d), d1)"
    and m1: "messages d1 = messages ?d @ [new_msg_row (ConversationID p) userID (Content p) ?d]"
    and c1: "conversations d1 = conversations ?d" and a1: "answers 1 d1"
    by blast
  from a1 have "answers (Suc 0) d1" by simp
  from db_call_answers[OF this] have f1: "\<not> fst (db_call d1)" by simp
  from assms(5) c1 have "find (\<lambda>r. conv_id r = ConversationID p) (conversations d1) = Some c"
    by simp
  from getConversationParticipants_found[OF f1 this]
  have gp: "getConversationParticipants (ConversationID p) d1 =
              ([conv_buyer_id c, conv_seller_id c], snd (db_call d1))" .
  have "SendMessage marshal (Some userID) (Some p) w =
     (case publish_each marshal [conv_buyer_id c, conv_seller_id c]
             (message_event (msg_auto ?d) (ConversationID p) userID (Content p) (db_clock ?d))
             (w_bus w) of
        Inl e \<Rightarrow> Inl e
      | Inr b \<Rightarrow> Inr (api_ok NoData, \<lparr>w_bus = b, w_db = snd (db_call d1)\<rparr>))"
    using assms(3,4) by (simp add: SendMessage_def sv gp del: publish_each.simps)
  moreover have "messages (snd (db_call d1)) = messages ?d @
        [new_msg_row (ConversationID p) userID (Content p) ?d]"
    by (simp add: db_call_tables m1)
  moreover have "conversations (snd (db_call d1)) = conversations ?d"
    by (simp add: db_call_tables c1)
  ultimately show ?thesis by blast
qed




lemma publish_each_returns:
  "bus_inv s \<Longrightarrow> \<exists>b. publish_each marshal pids evt s = Inr b"
  by (simp add: publish_each_inv)




section \<open>Typing\<close>




text \<open>
  C10. A \<^verbatim>\<open>Typing\<close> call whose conversation id matches no stored conversation still
  answers with success; the participant list is empty, so the bus is unchanged (no event
  reaches any channel), and the tables are unchanged. This holds whether or not the
  store answers the lookup.
\<close>

theorem Typing_unknown_conversation:
  assumes "find (\<lambda>r. conv_id r = conversationID) (conversations (w_db w)) = None"
  shows "\<exists>w'. Typing marshal (Some userID) (Some conversationID) w = Inr (api_ok NoData, w') \<and>
     w_bus w' = w_bus w \<and>
     conversations (w_db w') = conversations (w_db w) \<and> messages (w_db w') = messages (w_db w)"
  using assms
  by (simp add: Typing_def getConversationParticipants_missing db_call_tables)

theorem Typing_unknown_conversation_witness:
  "find (\<lambda>r. conv_id r = 9) (conversations (w_db demo_world)) = None \<and>
   (\<exists>w'. Typing sse_Type (Some 1) (Some 9) demo_world = Inr (api_ok NoData, w') \<and>
         w_bus w' = demo_bus)"
proof -
  have c: "find (\<lambda>r. conv_id r = 9) (conversations (w_db demo_world)) = None"
    by (simp add: demo_world_def demo_db_def)
  from Typing_unknown_conversation [OF c, of sse_Type 1] c show ?thesis
    by (auto simp: demo_world_def)
qed

section \<open>Validation in SendMessage\<close>

text \<open>
  C6. An authenticated \<^verbatim>\<open>SendMessage\<close> request whose conversation id is zero (missing)
  or whose content is empty is answered with fiber's bad-request error, and the world is
  unchanged: no row is inserted, the store is not called, and no event is published.
\<close>

theorem SendMessage_validation:
  assumes "ConversationID p = 0 \<or> Content p = []"
  shows "SendMessage marshal (Some userID) (Some p) w = Inr (Fail ErrBadRequest, w)"
  using assms by (auto simp: SendMessage_def)

theorem SendMessage_validation_witness:
  "Content \<lparr>ConversationID = 1, Content = []\<rparr> = [] \<and>
   SendMessage sse_Type (Some 1) (Some \<lparr>ConversationID = 1, Content = []\<rparr>) demo_world
     = Inr (Fail ErrBadRequest, demo_world)"
  using SendMessage_validation [of "\<lparr>ConversationID = 1, Content = []\<rparr>" sse_Type 1 demo_world]
  by simp

section \<open>Conversations\<close>








lemma ensureConversation_phases:
  "ensureConversation productID buyerID sellerID d =
     ensure_finish productID buyerID sellerID
       (fst (select_conversation_id productID buyerID sellerID d))
       (snd (select_conversation_id productID buyerID sellerID d))"
  by (simp add: ensureConversation_def ensure_finish_def split_beta)




section \<open>The guards of GetMessages\<close>

lemma GetMessages_missing:
  assumes "find (\<lambda>r. conv_id r = convID) (conversations d) = None"
  shows "GetMessages (Some userID) (convID, e) d = (Fail ErrNotFound, snd (db_call d))"
  using assms
  by (simp add: GetMessages_def select_buyer_seller_def db_call_tables split_beta Let_def)

lemma GetMessages_faulty:
  assumes "fst (db_call d)"
  shows "GetMessages (Some userID) (convID, e) d = (Fail ErrNotFound, snd (db_call d))"
  using assms
  by (simp add: GetMessages_def select_buyer_seller_def split_beta Let_def)

lemma GetMessages_outsider:
  assumes "find (\<lambda>r. conv_id r = convID) (conversations d) = Some c"
    and "\<not> fst (db_call d)"
    and "userID \<noteq> conv_buyer_id c" and "userID \<noteq> conv_seller_id c"
  shows "GetMessages (Some userID) (convID, e) d = (Fail ErrForbidden, snd (db_call d))"
  using assms
  by (simp add: GetMessages_def select_buyer_seller_def db_call_tables split_beta Let_def)

text \<open>The error that \<^verbatim>\<open>Atoi\<close> returns has no influence on the handler.\<close>

lemma GetMessages_drops_atoi_error:
  "GetMessages auth (convID, e) d = GetMessages auth (convID, False) d"
  by (cases auth) (simp_all add: GetMessages_def Let_def)

text \<open>
  C7, as amended. For an authenticated \<^verbatim>\<open>GetMessages\<close> request whose id parameter
  \<^verbatim>\<open>Atoi\<close> reads without an error as the number \<open>convID\<close>: when no conversation has this
  id, and also when the store does not answer the lookup of the conversation, the answer
  is fiber's not-found error; when the store answers, the conversation exists and the
  requester is neither its buyer nor its seller, the answer is the forbidden error.
  Whenever the conversation does not exist or the requester is neither its buyer nor its
  seller, the response carries no message and the tables are unchanged.
\<close>

theorem GetMessages_guards:
  "(find (\<lambda>r. conv_id r = convID) (conversations d) = None \<longrightarrow>
      fst (GetMessages (Some userID) (convID, False) d) = Fail ErrNotFound) \<and>
   (fst (db_call d) \<longrightarrow>
      fst (GetMessages (Some userID) (convID, False) d) = Fail ErrNotFound) \<and>
   (find (\<lambda>r. conv_id r = convID) (conversations d) = Some c \<and>
    \<not> fst (db_call d) \<and> userID \<noteq> conv_buyer_id c \<and> userID \<noteq> conv_seller_id c \<longrightarrow>
      fst (GetMessages (Some userID) (convID, False) d) = Fail ErrForbidden) \<and>
   (find (\<lambda>r. conv_id r = convID) (conversations d) = None \<or>
    find (\<lambda>r. conv_id r = convID) (conversations d) = Some c \<and>
      userID \<noteq> conv_buyer_id c \<and> userID \<noteq> conv_seller_id c \<longrightarrow>
      response_messages (fst (GetMessages (Some userID) (convID, False) d)) = [] \<and>
      messages (snd (GetMessages (Some userID) (convID, False) d)) = messages d \<and>
      conversations (snd (GetMessages (Some userID) (convID, False) d)) = conversations d)"
proof (intro conjI impI)
  assume "find (\<lambda>r. conv_id r = convID) (conversations d) = None"
  then show "fst (GetMessages (Some userID) (convID, False) d) = Fail ErrNotFound"
    by (simp add: GetMessages_missing)
next
  assume "fst (db_call d)"
  then show "fst (GetMessages (Some userID) (convID, False) d) = Fail ErrNotFound"
    by (simp add: GetMessages_faulty)
next
  assume "find (\<lambda>r. conv_id r = convID) (conversations d) = Some c \<and>
    \<not> fst (db_call d) \<and> userID \<noteq> conv_buyer_id c \<and> userID \<noteq> conv_seller_id c"
  then show "fst (GetMessages (Some userID) (convID, False) d) = Fail ErrForbidden"
    by (simp add: GetMessages_outsider)
next
  assume a: "find (\<lambda>r. conv_id r = convID) (conversations d) = None \<or>
    find (\<lambda>r. conv_id r = convID) (conversations d) = Some c \<and>
      userID \<noteq> conv_buyer_id c \<and> userID \<noteq> conv_seller_id c"
  have "GetMessages (Some userID) (convID, False) d = (Fail ErrNotFound, snd (db_call d)) \<or>
        GetMessages (Some userID) (convID, False) d = (Fail ErrForbidden, snd (db_call d))"
  proof (cases "fst (db_call d)")
    case True
    then show ?thesis by (simp add: GetMessages_faulty)
  next
    case False
    with a show ?thesis by (auto simp: GetMessages_missing GetMessages_outsider)
  qed
  then show "response_messages (fst (GetMessages (Some userID) (convID, False) d)) = []"
    and "messages (snd (GetMessages (Some userID) (convID, False) d)) = messages d"
    and "conversations (snd (GetMessages (Some userID) (convID, False) d)) = conversations d"
    by (auto simp: db_call_tables)
qed

theorem GetMessages_guards_witness:
  "find (\<lambda>r. conv_id r = 9) (conversations demo_db) = None \<and>
   fst (GetMessages (Some 3) (9, False) demo_db) = Fail ErrNotFound \<and>
   fst (db_call (demo_db\<lparr>faults := [True]\<rparr>)) \<and>
   fst (GetMessages (Some 1) (1, False) (demo_db\<lparr>faults := [True]\<rparr>)) = Fail ErrNotFound \<and>
   find (\<lambda>r. conv_id r = 1) (conversations demo_db) =
     Some \<lparr>conv_id = 1, conv_product_id = 5, conv_buyer_id = 1, conv_seller_id = 2\<rparr> \<and>
   (\<not> fst (db_call demo_db)) \<and>
   fst (GetMessages (Some 3) (1, False) demo_db) = Fail ErrForbidden \<and>
   response_messages (fst (GetMessages (Some 3) (1, False) demo_db)) = [] \<and>
   messages (snd (GetMessages (Some 3) (1, False) demo_db)) = messages demo_db"
proof -
  have a: "find (\<lambda>r. conv_id r = 9) (conversations demo_db) = None"
    by (simp add: demo_db_def)
  have b: "find (\<lambda>r. conv_id r = 1) (conversations demo_db) =
     Some \<lparr>conv_id = 1, conv_product_id = 5, conv_buyer_id = 1, conv_seller_id = 2\<rparr>"
    by (simp add: demo_db_def)
  have n: "\<not> fst (db_call demo_db)" by (simp add: demo_db_def db_call_def)
  have y: "fst (db_call (demo_db\<lparr>faults := [True]\<rparr>))" by (simp add: db_call_def)
  from GetMessages_guards [where convID = 9 and d = demo_db and userID = 3] a
  have 1: "fst (GetMessages (Some 3) (9, False) demo_db) = Fail ErrNotFound" by blast
  from GetMessages_guards [where convID = 1 and d = "demo_db\<lparr>faults := [True]\<rparr>" and userID = 1] y
  have 2: "fst (GetMessages (Some 1) (1, False) (demo_db\<lparr>faults := [True]\<rparr>)) = Fail ErrNotFound"
    by blast
  from GetMessages_guards [where convID = 1 and d = demo_db and userID = 3
         and c = "\<lparr>conv_id = 1, conv_product_id = 5, conv_buyer_id = 1, conv_seller_id = 2\<rparr>"] b n
  have 3: "fst (GetMessages (Some 3) (1, False) demo_db) = Fail ErrForbidden \<and>
   response_messages (fst (GetMessages (Some 3) (1, False) demo_db)) = [] \<and>
   messages (snd (GetMessages (Some 3) (1, False) demo_db)) = messages demo_db"
    by simp
  from a b n y 1 2 3 show ?thesis by blast
qed

text \<open>The claim as it was stated fails when the store does not answer the lookup:
  conversation 1 exists, user 3 is neither its buyer nor its seller, and the answer is
  the not-found error, not the forbidden one.\<close>

theorem GetMessages_lookup_fails_counterexample:
  "GetMessages (Some 3) (1, False) (demo_db\<lparr>faults := [True]\<rparr>) = (Fail ErrNotFound, demo_db) \<and>
   conversations (demo_db\<lparr>faults := [True]\<rparr>) =
     [\<lparr>conv_id = 1, conv_product_id = 5, conv_buyer_id = 1, conv_seller_id = 2\<rparr>]"
  by (simp add: GetMessages_def select_buyer_seller_def db_call_def demo_db_def)

section \<open>The sender of a message\<close>

text \<open>
  C8. \<^verbatim>\<open>SendMessage\<close> does not compare the sender with the participants of the
  conversation. In a store whose conversation 1 has buyer 1 and seller 2, the request of
  user 3 to send ''hi'' to conversation 1 succeeds and appends a message row with sender 3.
\<close>

theorem SendMessage_by_non_participant:
  "\<exists>b d. SendMessage sse_Type (Some 3) (Some \<lparr>ConversationID = 1, Content = ''hi''\<rparr>) demo_world
            = Inr (api_ok NoData, \<lparr>w_bus = b, w_db = d\<rparr>) \<and>
     conversations d = [\<lparr>conv_id = 1, conv_product_id = 5, conv_buyer_id = 1, conv_seller_id = 2\<rparr>] \<and>
     messages d =
       [\<lparr>msg_id = 1, msg_conversation_id = 1, msg_sender_id = 1,
         msg_content = ''hello'', msg_created_at = 900, msg_read_at = None\<rparr>,
        \<lparr>msg_id = 2, msg_conversation_id = 1, msg_sender_id = 3,
         msg_content = ''hi'', msg_created_at = 1000, msg_read_at = None\<rparr>]"
proof -
  let ?p = "\<lparr>ConversationID = 1, Content = ''hi''\<rparr>"
  let ?c = "\<lparr>conv_id = 1, conv_product_id = 5, conv_buyer_id = 1, conv_seller_id = 2\<rparr>"
  have f: "fresh_ids (w_db demo_world)" by (simp add: demo_world_def demo_db_def fresh_ids_def)
  have n: "answers 3 (w_db demo_world)"
    by (simp add: answers_no_faults demo_world_def demo_db_def)
  have c: "find (\<lambda>r. conv_id r = ConversationID ?p) (conversations (w_db demo_world)) = Some ?c"
    by (simp add: demo_world_def demo_db_def)
  have v: "ConversationID ?p \<noteq> 0" "Content ?p \<noteq> []" by simp_all
  have inv: "bus_inv (w_bus demo_world)"
    by (simp add: demo_world_def reachable_inv demo_bus_reachable)
  from publish_each_returns[OF inv] obtain b where pe:
    "publish_each sse_Type [conv_buyer_id ?c, conv_seller_id ?c]
       (message_event (msg_auto (w_db demo_world)) (ConversationID ?p) 3 (Content ?p)
          (db_clock (w_db demo_world))) (w_bus demo_world) = Inr b"
    by blast
  from SendMessage_stored[OF f n v c, of sse_Type 3] obtain d where
    "SendMessage sse_Type (Some 3) (Some ?p) demo_world = Inr (api_ok NoData, \<lparr>w_bus = b, w_db = d\<rparr>)"
    and "messages d = messages (w_db demo_world) @
           [new_msg_row (ConversationID ?p) 3 (Content ?p) (w_db demo_world)]"
    and "conversations d = conversations (w_db demo_world)"
    using pe by (auto simp only: sum.case)
  then show ?thesis
    by (auto simp: demo_world_def demo_db_def new_msg_row_def)
qed

section \<open>Publishing to a user without subscribers\<close>

text \<open>
  C9. When the table holds no channel for the user (the key is missing or its slice is
  empty), \<^verbatim>\<open>publishToUser\<close> returns normally and the bus is exactly what it was: the table
  and every channel are unchanged. The result is the same for every serializer, so the
  event is not serialized and nothing is sent.
\<close>

theorem publishToUser_no_subscribers:
  assumes "subs_of (us_m s) userID = []"
  shows "publishToUser marshal userID evt s = Inr s"
  using assms by (simp add: publishToUser_def)

theorem publishToUser_no_subscribers_witness:
  "subs_of (us_m bus_init) 7 = [] \<and>
   publishToUser (\<lambda>e. sse_Type e) 7 \<lparr>sse_Type = ''typing'', sse_Data = []\<rparr> bus_init = Inr bus_init"
  using publishToUser_no_subscribers [of bus_init 7 "\<lambda>e. sse_Type e" "\<lparr>sse_Type = ''typing'', sse_Data = []\<rparr>"]
  by (simp add: subs_of_def bus_init_def)

end
